theory Spec2Isabelle
  imports Complex_Main "HOL-Library.Sublist"
begin

section \<open>Markup resolution (src/utils/markupSettings.ts)\<close>

text \<open>
  A \<open>MarkupSetting\<close> of the source is \<open>{ id, type, name, markup }\<close>; \<open>type\<close> is
  one of the strings \<open>'manufacturer'\<close> and \<open>'category'\<close>. The markup fractions are
  decimal literals; they are only looked up and returned, never computed with, so they
  are modelled as rationals.
\<close>

record MarkupSetting =
  id_ms :: string
  type_ms :: string
  name_ms :: string
  markup :: rat

definition mkSetting :: "string \<Rightarrow> string \<Rightarrow> string \<Rightarrow> rat \<Rightarrow> MarkupSetting" where
  "mkSetting i t n m = \<lparr> id_ms = i, type_ms = t, name_ms = n, markup = m \<rparr>"

definition defaultMarkupSettings :: "MarkupSetting list" where
  "defaultMarkupSettings =
    [ mkSetting ''1'' ''manufacturer'' ''Cartier'' (3/10),
      mkSetting ''2'' ''manufacturer'' ''Tiffany'' (35/100),
      mkSetting ''3'' ''manufacturer'' ''Pandora'' (25/100),
      mkSetting ''4'' ''manufacturer'' ''Swarovski'' (28/100),
      mkSetting ''5'' ''manufacturer'' ''Local'' (2/10),
      mkSetting ''6'' ''category'' ''Rings'' (25/100),
      mkSetting ''7'' ''category'' ''Necklaces'' (3/10),
      mkSetting ''8'' ''category'' ''Earrings'' (28/100),
      mkSetting ''9'' ''category'' ''Bracelets'' (32/100),
      mkSetting ''10'' ''category'' ''Watches'' (4/10) ]"

text \<open>
  \<open>x?.markup || y\<close>: the left operand is taken when it is truthy, that is when the
  setting was found and its markup is not \<open>0\<close>; otherwise the right operand.
\<close>

definition js_or :: "rat option \<Rightarrow> rat \<Rightarrow> rat" where
  "js_or x y = (case x of None \<Rightarrow> y | Some v \<Rightarrow> (if v = 0 then y else v))"

text \<open>
  \<open>getMarkupForProduct\<close> searches the module's table. \<open>Array.prototype.find\<close> returns
  the first element that satisfies the predicate, as \<^const>\<open>find\<close> does.
\<close>

definition getMarkupForProduct :: "string \<Rightarrow> string \<Rightarrow> rat" where
  "getMarkupForProduct manufacturer category =
    (let manufacturerSetting =
           find (\<lambda>setting. type_ms setting = ''manufacturer'' \<and> name_ms setting = manufacturer)
             defaultMarkupSettings;
         categorySetting =
           find (\<lambda>setting. type_ms setting = ''category'' \<and> name_ms setting = category)
             defaultMarkupSettings
     in js_or (map_option markup manufacturerSetting)
          (js_or (map_option markup categorySetting) (2/10)))"

text \<open>
  The resolution order in the words of the specification: the manufacturer-scope rule
  if there is one, otherwise the category-scope rule if there is one, otherwise the
  default fraction, whatever the fractions are.
\<close>

definition resolveMarkup_spec :: "MarkupSetting list \<Rightarrow> string \<Rightarrow> string \<Rightarrow> rat" where
  "resolveMarkup_spec settings manufacturer category =
    (case find (\<lambda>setting. type_ms setting = ''manufacturer'' \<and> name_ms setting = manufacturer) settings of
       Some r \<Rightarrow> markup r
     | None \<Rightarrow>
        (case find (\<lambda>setting. type_ms setting = ''category'' \<and> name_ms setting = category) settings of
           Some r \<Rightarrow> markup r
         | None \<Rightarrow> 2/10))"

section \<open>Bar patterns of the product form (ProductForm)\<close>

text \<open>
  \<open>text.charCodeAt(i)\<close> is the code of the \<open>i\<close>-th character; the texts are SKUs, and
  a character is modelled as a \<^typ>\<open>char\<close> with code \<^term>\<open>of_char c :: nat\<close>.
\<close>

definition charCodeAt :: "char \<Rightarrow> nat" where
  "charCodeAt c = of_char c"

definition code128Variation :: "char \<Rightarrow> nat list" where
  "code128Variation c =
    (let charCode = charCodeAt c mod 32
     in if charCode mod 3 = 0 then [2, 1, 1, 1, 2, 1]
        else if charCode mod 3 = 1 then [1, 2, 1, 1, 1, 2]
        else [1, 1, 2, 1, 2, 1])"

text \<open>The loop of \<open>generateCode128Bars\<close>, from index \<open>i\<close> on.\<close>

fun code128Loop :: "nat \<Rightarrow> string \<Rightarrow> nat list" where
  "code128Loop i [] = []"
| "code128Loop i (c # cs) =
     (if i mod 2 = 0 then [1, 2, 2, 1, 1, 1] else [1, 1, 2, 2, 1, 1])
       @ code128Variation c @ code128Loop (i + 1) cs"

definition generateCode128Bars :: "string \<Rightarrow> nat list" where
  "generateCode128Bars text = [2, 1, 1, 2, 3, 2] @ code128Loop 0 text @ [2, 3, 3, 1, 1, 1, 2]"

definition charPattern :: "char \<Rightarrow> nat list" where
  "charPattern c =
    (let charCode = charCodeAt c
     in if charCode \<ge> 48 \<and> charCode \<le> 57 then [2, 1, 1, 2, 1, 1]
        else if charCode \<ge> 65 \<and> charCode \<le> 90 then [1, 2, 1, 1, 2, 1]
        else if charCode \<ge> 97 \<and> charCode \<le> 122 then [1, 1, 2, 1, 1, 2]
        else [1, 1, 1, 2, 2, 1])"

fun barcodePatternLoop :: "string \<Rightarrow> nat list" where
  "barcodePatternLoop [] = []"
| "barcodePatternLoop (c # cs) = charPattern c @ barcodePatternLoop cs"

definition generateBarcodePattern :: "string \<Rightarrow> nat list" where
  "generateBarcodePattern text =
     [1, 2, 1, 2, 3, 2, 1] @ barcodePatternLoop text @ [2, 3, 3, 1, 1, 1, 2]"

section \<open>The scan stream parser (src/components/pos/ProductScanner.tsx)\<close>

text \<open>
  A \<open>keydown\<close> event as the handler reads it: \<open>e.key\<close>, \<open>e.ctrlKey\<close>, and the value
  \<open>Date.now()\<close> returns while the handler runs.
\<close>

record KeyboardEvent =
  key :: string
  ctrlKey :: bool
  now :: int

record BulkItem =
  item_sku :: string
  quantity :: nat

text \<open>
  The state the component keeps: the refs \<open>buffer\<close>, \<open>lastKeyTime\<close> and
  \<open>isShiftPressed\<close>, the React states \<open>bulkItems\<close> and \<open>debugMode\<close>, and the props
  \<open>scanning\<close> and \<open>bulkMode\<close>. The handlers are closures made by a render: they read the
  value \<open>bulkItems\<close> had in that render, kept here as \<open>rendered\<close>, while the updater
  functions passed to \<open>setBulkItems\<close> run on the current state \<open>bulkItems\<close>.
  \<open>emitted\<close> logs, in order, the non-empty tokens \<open>processSku\<close> was called with: in
  single mode these are the calls of \<open>processScannedSku\<close>, in bulk mode the ledger
  updates. The confirmation beep and the debug logging change none of this state and
  are left out.
\<close>

record scanner =
  buffer :: string
  lastKeyTime :: int
  isShiftPressed :: bool
  bulkItems :: "BulkItem list"
  rendered :: "BulkItem list"
  debugMode :: bool
  scanning :: bool
  bulkMode :: bool
  emitted :: "string list"

definition SCAN_TIMEOUT :: int where
  "SCAN_TIMEOUT = 30"

definition SKU_PATTERN :: string where
  "SKU_PATTERN = ''RIMO1200597''"

text \<open>React renders again after a state change; the new closures see the new state.\<close>

definition rerender :: "scanner \<Rightarrow> scanner" where
  "rerender s = s\<lparr>rendered := bulkItems s\<rparr>"

text \<open>
  \<open>bulkItemsMap\<close>: a \<open>Map\<close> filled by \<open>bulkItems.forEach(item => map.set(item.sku, item))\<close>
  over the rendered items.
\<close>

definition bulkItemsMap :: "BulkItem list \<Rightarrow> (string \<rightharpoonup> BulkItem)" where
  "bulkItemsMap items = foldl (\<lambda>m item. m(item_sku item \<mapsto> item)) Map.empty items"

text \<open>\<open>findIndex\<close>: the index of the first element satisfying the predicate, if any.\<close>

fun findIndex :: "('a \<Rightarrow> bool) \<Rightarrow> 'a list \<Rightarrow> nat option" where
  "findIndex P [] = None"
| "findIndex P (x # xs) =
     (if P x then Some 0 else map_option Suc (findIndex P xs))"

definition incrementFirst :: "string \<Rightarrow> BulkItem list \<Rightarrow> BulkItem list" where
  "incrementFirst sk prev =
    (case findIndex (\<lambda>item. item_sku item = sk) prev of
       Some index \<Rightarrow> prev[index := (prev ! index)\<lparr>quantity := quantity (prev ! index) + 1\<rparr>]
     | None \<Rightarrow> prev)"

definition processSku :: "string \<Rightarrow> scanner \<Rightarrow> scanner" where
  "processSku sk s =
    (if sk = [] then s
     else if bulkMode s then
       (case bulkItemsMap (rendered s) sk of
          Some existingItem \<Rightarrow>
            s\<lparr>bulkItems := incrementFirst sk (bulkItems s), emitted := emitted s @ [sk]\<rparr>
        | None \<Rightarrow>
            s\<lparr>bulkItems := bulkItems s @ [\<lparr>item_sku = sk, quantity = 1\<rparr>],
              emitted := emitted s @ [sk]\<rparr>)
     else s\<lparr>emitted := emitted s @ [sk]\<rparr>)"

text \<open>
  \<open>str.match(/RIMO1200597/g)\<close>: the non-overlapping occurrences of the pattern, found
  from left to right. The pattern is a literal without metacharacters.
\<close>

function matchAll :: "string \<Rightarrow> string \<Rightarrow> string list" where
  "matchAll p str =
    (if p = [] \<or> str = [] then []
     else if prefix p str then p # matchAll p (drop (length p) str)
     else matchAll p (tl str))"
  by pat_completeness auto
termination
  by (relation "measure (\<lambda>(p, str). length str)") auto

declare matchAll.simps [simp del]

fun processAll :: "string list \<Rightarrow> scanner \<Rightarrow> scanner" where
  "processAll [] s = s"
| "processAll (m # ms) s = processAll ms (processSku m s)"

definition processBuffer :: "scanner \<Rightarrow> scanner" where
  "processBuffer s =
    (if buffer s = [] then s
     else
       (let matches = matchAll SKU_PATTERN (buffer s);
            s1 = (if matches \<noteq> [] then processAll matches s else processSku (buffer s) s)
        in s1\<lparr>buffer := []\<rparr>))"

text \<open>
  \<open>str.lastIndexOf(p)\<close>: the greatest index at which \<open>p\<close> occurs, or \<open>-1\<close>; and
  \<open>str.substring(i)\<close>, which takes a negative \<open>i\<close> for \<open>0\<close>.
\<close>

fun lastIndexFrom :: "string \<Rightarrow> string \<Rightarrow> nat \<Rightarrow> int" where
  "lastIndexFrom str p 0 = (if prefix p str then 0 else -1)"
| "lastIndexFrom str p (Suc i) =
     (if prefix p (drop (Suc i) str) then int (Suc i) else lastIndexFrom str p i)"

definition lastIndexOf :: "string \<Rightarrow> string \<Rightarrow> int" where
  "lastIndexOf str p =
     (if length p \<le> length str then lastIndexFrom str p (length str - length p) else -1)"

definition substring :: "string \<Rightarrow> int \<Rightarrow> string" where
  "substring str i = drop (nat i) str"

definition appendKey :: "string \<Rightarrow> scanner \<Rightarrow> scanner" where
  "appendKey k s =
    (let b1 = buffer s @ k;
         b2 = (if length b1 > 1000 then substring b1 (int (length b1) - 200) else b1);
         s2 = s\<lparr>buffer := b2\<rparr>
     in if suffix SKU_PATTERN b2 then
          (let s3 = processSku SKU_PATTERN s2;
               patternIndex = lastIndexOf (buffer s3) SKU_PATTERN
           in s3\<lparr>buffer := substring (buffer s3) (patternIndex + int (length SKU_PATTERN))\<rparr>)
        else s2)"

definition handleKeyDown :: "scanner \<Rightarrow> KeyboardEvent \<Rightarrow> scanner" where
  "handleKeyDown s e =
    (if key e = ''Escape'' then s\<lparr>scanning := False\<rparr>
     else if ctrlKey e \<and> key e = ''d'' then s\<lparr>debugMode := \<not> debugMode s\<rparr>
     else if key e = ''Shift'' then s\<lparr>isShiftPressed := True\<rparr>
     else
       (let s1 = (if now e - lastKeyTime s > SCAN_TIMEOUT \<and> key e \<noteq> ''Shift''
                  then s\<lparr>buffer := []\<rparr> else s);
            s2 = (if key e \<noteq> ''Shift'' \<and> key e \<noteq> ''Control'' \<and> key e \<noteq> ''Alt''
                  then s1\<lparr>lastKeyTime := now e\<rparr> else s1)
        in if key e = ''Enter'' then processBuffer s2
           else if key e \<noteq> ''Shift'' \<and> key e \<noteq> ''Control'' \<and> key e \<noteq> ''Alt''
           then appendKey (key e) s2
           else s2))"

definition handleKeyUp :: "scanner \<Rightarrow> string \<Rightarrow> scanner" where
  "handleKeyUp s k = (if k = ''Shift'' then s\<lparr>isShiftPressed := False\<rparr> else s)"

text \<open>
  The listeners are attached by an effect that runs only while \<open>scanning\<close> holds, and
  are removed when it is turned off.
\<close>

definition keydown :: "scanner \<Rightarrow> KeyboardEvent \<Rightarrow> scanner" where
  "keydown s e = (if scanning s then handleKeyDown s e else s)"

definition runKeys :: "scanner \<Rightarrow> KeyboardEvent list \<Rightarrow> scanner" where
  "runKeys s es = foldl keydown s es"

text \<open>
  Manual submission of the visible input field. In single mode the token goes to
  \<open>processScannedSku\<close>, logged in \<open>emitted\<close>.
\<close>

definition handleManualSubmit :: "string \<Rightarrow> scanner \<Rightarrow> scanner" where
  "handleManualSubmit inputSku s =
    (if inputSku = [] then s
     else if bulkMode s then
       (case find (\<lambda>item. item_sku item = inputSku) (rendered s) of
          Some existingItem \<Rightarrow>
            s\<lparr>bulkItems :=
                 map (\<lambda>item. if item_sku item = inputSku
                              then item\<lparr>quantity := quantity item + 1\<rparr> else item) (bulkItems s),
              emitted := emitted s @ [inputSku]\<rparr>
        | None \<Rightarrow>
            s\<lparr>bulkItems := bulkItems s @ [\<lparr>item_sku = inputSku, quantity = 1\<rparr>],
              emitted := emitted s @ [inputSku]\<rparr>)
     else s\<lparr>emitted := emitted s @ [inputSku]\<rparr>)"

text \<open>
  The explicit actions on the ledger: \<open>Clear All\<close>, the delete button of row \<open>index\<close>
  (\<open>prev.filter((_, i) => i !== index)\<close>), and \<open>handleBulkComplete\<close>, which hands the
  items to \<open>onBulkScan\<close> and empties the ledger when that optional prop is given (the
  first argument) and there is something to hand over.
\<close>

definition clearAll :: "scanner \<Rightarrow> scanner" where
  "clearAll s = s\<lparr>bulkItems := []\<rparr>"

definition deleteRow :: "nat \<Rightarrow> scanner \<Rightarrow> scanner" where
  "deleteRow index s =
     s\<lparr>bulkItems := map snd (filter (\<lambda>(i, item). i \<noteq> index) (enumerate 0 (bulkItems s)))\<rparr>"

definition handleBulkComplete :: "bool \<Rightarrow> scanner \<Rightarrow> scanner \<times> BulkItem list option" where
  "handleBulkComplete onBulkScanGiven s =
    (if onBulkScanGiven \<and> length (rendered s) > 0
     then (s\<lparr>bulkItems := []\<rparr>, Some (rendered s)) else (s, None))"

subsection \<open>Ledger comparison\<close>

text \<open>
  \<open>ledger_le old new\<close>: every row of \<open>old\<close> is still there in \<open>new\<close>, at the same
  index and for the same SKU, with a quantity that is not smaller. \<open>qtyOf sk items\<close> is
  the quantity accumulated for \<open>sk\<close> over all rows.
\<close>

fun ledger_le :: "BulkItem list \<Rightarrow> BulkItem list \<Rightarrow> bool" where
  "ledger_le [] new = True"
| "ledger_le (a # as) [] = False"
| "ledger_le (a # as) (b # bs) =
     (item_sku b = item_sku a \<and> quantity a \<le> quantity b \<and> ledger_le as bs)"

definition qtyOf :: "string \<Rightarrow> BulkItem list \<Rightarrow> nat" where
  "qtyOf sk items = sum_list (map quantity (filter (\<lambda>item. item_sku item = sk) items))"

text \<open>
  Bulk dispatch in the words of the specification: the quantity of the SKU is
  incremented by one if the ledger has it, and the SKU is inserted with quantity one
  otherwise.
\<close>

definition bulkDispatch_spec :: "string \<Rightarrow> BulkItem list \<Rightarrow> BulkItem list" where
  "bulkDispatch_spec sk items =
    (if sk \<in> item_sku ` set items
     then map (\<lambda>item. if item_sku item = sk then item\<lparr>quantity := quantity item + 1\<rparr> else item) items
     else items @ [\<lparr>item_sku = sk, quantity = 1\<rparr>])"

text \<open>
  The state of a freshly mounted component: the initial values of its refs and states,
  and the two props.
\<close>

definition initialScanner :: "bool \<Rightarrow> bool \<Rightarrow> scanner" where
  "initialScanner scanningProp bulkModeProp =
     \<lparr>buffer = [], lastKeyTime = 0, isShiftPressed = False, bulkItems = [], rendered = [],
      debugMode = False, scanning = scanningProp, bulkMode = bulkModeProp, emitted = []\<rparr>"

subsection \<open>Key streams\<close>

text \<open>
  \<open>gaps_ok es\<close>: no gap between consecutive events of \<open>es\<close> exceeds the inactivity
  threshold. \<open>truncateBuffer\<close> names the cap the handler puts on the buffer after
  appending a key. \<open>typeKeys str t0\<close> is the stream a scanner sends for \<open>str\<close>: one
  key per character, five milliseconds apart, from time \<open>t0\<close>.
\<close>

fun gaps_ok :: "KeyboardEvent list \<Rightarrow> bool" where
  "gaps_ok [] = True"
| "gaps_ok [e] = True"
| "gaps_ok (e1 # e2 # es) = (now e2 - now e1 \<le> SCAN_TIMEOUT \<and> gaps_ok (e2 # es))"

definition truncateBuffer :: "string \<Rightarrow> string" where
  "truncateBuffer b = (if length b > 1000 then substring b (int (length b) - 200) else b)"

definition typeKeys :: "string \<Rightarrow> int \<Rightarrow> KeyboardEvent list" where
  "typeKeys str t0 = map (\<lambda>(i, c). \<lparr>key = [c], ctrlKey = False, now = t0 + 5 * int i\<rparr>) (enumerate 0 str)"

section \<open>The product form (ProductForm): validation and barcode generation\<close>

text \<open>
  The price and stock fields of \<open>formData\<close> are strings of digits (\<open>handleChange\<close>
  removes every other character); the handlers read them with \<open>Number(...)\<close>. A field is
  modelled by \<open>None\<close> when it is blank and by \<open>Some n\<close> when it is filled and
  \<open>Number\<close> gives \<open>n\<close>.
\<close>

record formData =
  fd_name :: string
  fd_description :: string
  fd_manufacturer :: string
  fd_category :: string
  fd_buy_price :: "int option"
  fd_wholesale_price :: "int option"
  fd_retail_price :: "int option"
  fd_stock_level :: "int option"
  fd_image_url :: string
  fd_additional_info :: string

text \<open>
  \<open>generateBarcodes\<close> is imported from \<open>utils/barcodeGenerator\<close>, which is not among the
  sources: the handlers take it as the argument \<open>gen\<close>. Its arguments are the category,
  the manufacturer, the wholesale and the retail price, the buy price (both callers
  pass \<open>undefined\<close>) and the additional information. It throws, or resolves to an
  object with the fields \<open>sku\<close>, \<open>qrCode\<close>, \<open>code128\<close> and \<open>cipher\<close>, or to nothing.
\<close>

record gen_args =
  g_category :: string
  g_manufacturer :: string
  g_wholesalePrice :: int
  g_retailPrice :: int
  g_buyPrice :: "int option"
  g_additionalInfo :: string

record barcodes =
  bc_sku :: string
  bc_qrCode :: string
  bc_code128 :: string
  bc_cipher :: string

datatype error = Error string

type_synonym generator = "gen_args \<Rightarrow> error + barcodes option"

record productData =
  pd_name :: "string option"
  pd_description :: string
  pd_manufacturer :: string
  pd_category :: string
  pd_buy_price :: int
  pd_wholesale_price :: int
  pd_retail_price :: int
  pd_stock_level :: int
  pd_image_url :: string
  pd_additional_info :: string
  pd_sku :: string
  pd_qr_code :: string
  pd_code128 :: string
  pd_cipher :: string

text \<open>
  \<open>String.prototype.trim\<close> removes white space and line terminators from both ends. Of
  these, the characters with a code below 256, the codes a \<^typ>\<open>char\<close> has, are the tab,
  the line feed, the vertical tab, the form feed, the carriage return, the space and the
  no-break space.
\<close>

definition isSpace :: "char \<Rightarrow> bool" where
  "isSpace c = (c = CHR '' '' \<or> c = CHR 0x09 \<or> c = CHR 0x0A \<or> c = CHR 0x0B \<or> c = CHR 0x0C
     \<or> c = CHR 0x0D \<or> c = CHR 0xA0)"

definition trim :: "string \<Rightarrow> string" where
  "trim str = rev (dropWhile isSpace (rev (dropWhile isSpace str)))"

fun joinWith :: "string \<Rightarrow> string list \<Rightarrow> string" where
  "joinWith sep [] = []"
| "joinWith sep [x] = x"
| "joinWith sep (x # y # ys) = x @ sep @ joinWith sep (y # ys)"

text \<open>The labels of the required fields that are blank, in the order of \<open>requiredFields\<close>.\<close>

definition missingFields :: "formData \<Rightarrow> string list" where
  "missingFields f =
     (if trim (fd_manufacturer f) = [] then [''Manufacturer''] else [])
   @ (if trim (fd_category f) = [] then [''Category''] else [])
   @ (if fd_buy_price f = None then [''Buy Price''] else [])
   @ (if fd_wholesale_price f = None then [''Wholesale Price''] else [])
   @ (if fd_retail_price f = None then [''Retail Price''] else [])
   @ (if fd_stock_level f = None then [''Stock Level''] else [])"

definition submitArgs :: "formData \<Rightarrow> int \<Rightarrow> int \<Rightarrow> gen_args" where
  "submitArgs f wholesalePrice retailPrice =
     \<lparr>g_category = fd_category f, g_manufacturer = fd_manufacturer f,
      g_wholesalePrice = wholesalePrice, g_retailPrice = retailPrice,
      g_buyPrice = None, g_additionalInfo = fd_additional_info f\<rparr>"

text \<open>
  \<open>handleSubmit\<close>: the result is the error message the handler ends with (\<open>Inl\<close>) or the
  \<open>productData\<close> it hands to \<open>onSubmit\<close> (\<open>Inr\<close>), together with the calls of
  \<open>generateBarcodes\<close> it made.
\<close>

definition handleSubmit :: "generator \<Rightarrow> formData \<Rightarrow> (error + productData) \<times> gen_args list" where
  "handleSubmit gen f =
    (case (fd_buy_price f, fd_wholesale_price f, fd_retail_price f, fd_stock_level f) of
       (Some buyPrice, Some wholesalePrice, Some retailPrice, Some stockLevel) \<Rightarrow>
         (if missingFields f \<noteq> [] then
            (Inl (Error (''Required fields missing: '' @ joinWith '', '' (missingFields f))), [])
          else if buyPrice \<le> 0 then (Inl (Error ''Buy price must be greater than 0''), [])
          else if wholesalePrice \<le> buyPrice
            then (Inl (Error ''Wholesale price must be greater than buy price''), [])
          else if retailPrice \<le> wholesalePrice
            then (Inl (Error ''Retail price must be greater than wholesale price''), [])
          else
            (let args = submitArgs f wholesalePrice retailPrice
             in case gen args of
                  Inl (Error m) \<Rightarrow> (Inl (Error (''Barcode generation failed: '' @ m)), [args])
                | Inr None \<Rightarrow> (Inl (Error ''Failed to generate valid product barcodes''), [args])
                | Inr (Some b) \<Rightarrow>
                    (if bc_sku b = [] \<or> bc_qrCode b = [] \<or> bc_code128 b = []
                     then (Inl (Error ''Failed to generate valid product barcodes''), [args])
                     else
                       (Inr \<lparr>pd_name = (if fd_name f = [] then None else Some (fd_name f)),
                             pd_description = fd_description f,
                             pd_manufacturer = fd_manufacturer f,
                             pd_category = fd_category f,
                             pd_buy_price = buyPrice,
                             pd_wholesale_price = wholesalePrice,
                             pd_retail_price = retailPrice,
                             pd_stock_level = stockLevel,
                             pd_image_url = fd_image_url f,
                             pd_additional_info = fd_additional_info f,
                             pd_sku = bc_sku b,
                             pd_qr_code = bc_qrCode b,
                             pd_code128 = bc_code128 b,
                             pd_cipher = bc_cipher b\<rparr>, [args]))))
     | _ \<Rightarrow> (Inl (Error (''Required fields missing: '' @ joinWith '', '' (missingFields f))), []))"

text \<open>
  \<open>generateBarcode\<close>, the preview that runs whenever manufacturer, category, wholesale
  and retail price are filled: it changes the states \<open>qrCode\<close>, \<open>generatedSKU\<close> and
  \<open>error\<close> of the form.
\<close>

record preview =
  qrCode :: string
  generatedSKU :: string
  pv_error :: "string option"

definition generateBarcode :: "generator \<Rightarrow> formData \<Rightarrow> preview \<Rightarrow> preview \<times> gen_args list" where
  "generateBarcode gen f st =
    (case (fd_wholesale_price f, fd_retail_price f) of
       (Some wholesalePrice, Some retailPrice) \<Rightarrow>
         (if fd_manufacturer f \<noteq> [] \<and> fd_category f \<noteq> [] then
            (let st1 = st\<lparr>pv_error := None\<rparr>
             in if wholesalePrice \<le> 0 \<or> retailPrice \<le> 0
                then (st1\<lparr>pv_error := Some ''Invalid price values''\<rparr>, [])
                else
                  (let args = submitArgs f wholesalePrice retailPrice
                   in case gen args of
                        Inl (Error m) \<Rightarrow>
                          (st1\<lparr>pv_error := Some (''Error generating barcode: '' @ m)\<rparr>, [args])
                      | Inr None \<Rightarrow>
                          (st1\<lparr>pv_error :=
                             Some ''Error generating barcode: Failed to generate barcode data''\<rparr>, [args])
                      | Inr (Some b) \<Rightarrow>
                          (if bc_sku b = []
                           then (st1\<lparr>pv_error :=
                                  Some ''Error generating barcode: Failed to generate barcode data''\<rparr>, [args])
                           else (st1\<lparr>qrCode := bc_qrCode b, generatedSKU := bc_sku b\<rparr>, [args]))))
          else (st, []))
     | _ \<Rightarrow> (st, []))"

section \<open>The cipher codec, from the specification\<close>

text \<open>
  Modelled from the spec: \<open>generateBarcodes\<close> and the decoder of the cipher, which live
  in \<open>utils/barcodeGenerator\<close> and are not among the sources. The specification: resolve
  the manufacturer and the category to their codes by lookup tables, failing when one
  is unknown; fail on a non-positive price or a violated price order before anything is
  encoded; encode each of wholesale and retail price as a fixed-width group of base-N
  digits over an alphabet without look-alike characters, and concatenate the two groups
  into the cipher, the fragment that reversibly represents the two prices; compose the SKU as manufacturer code, category code and cipher,
  joined by \<open>-\<close>; the Code 128 payload is the bare SKU, the QR payload the same token.
  The alphabet, the width and the two tables are not given by the specification: they
  are arguments.
\<close>

record codec =
  alphabet :: string
  width :: nat
  manufacturerCodes :: "(string \<times> string) list"
  categoryCodes :: "(string \<times> string) list"

record ProductCode =
  sku :: string
  cipher :: string
  qrPayload :: string
  code128Payload :: string

datatype codec_error = InvalidInput | UnknownManufacturer | UnknownCategory

text \<open>
  The group of exactly \<open>w\<close> base-N digits of \<open>p\<close>, most significant first. A price
  with more than \<open>w\<close> digits has no such group: the cipher is to represent the prices
  reversibly, so nothing is cut off.
\<close>

fun encodeDigits :: "string \<Rightarrow> nat \<Rightarrow> nat \<Rightarrow> string option" where
  "encodeDigits a 0 p = (if p = 0 then Some [] else None)"
| "encodeDigits a (Suc w) p =
     (if a = [] then None
      else map_option (\<lambda>ds. ds @ [a ! (p mod length a)]) (encodeDigits a w (p div length a)))"


definition encodeCipher :: "codec \<Rightarrow> nat \<Rightarrow> nat \<Rightarrow> string option" where
  "encodeCipher cd wholesalePrice retailPrice =
    (case (encodeDigits (alphabet cd) (width cd) wholesalePrice,
           encodeDigits (alphabet cd) (width cd) retailPrice) of
       (Some wholesaleGroup, Some retailGroup) \<Rightarrow> Some (wholesaleGroup @ retailGroup)
     | _ \<Rightarrow> None)"

text \<open>
  \<open>encode\<close> fails on invalid prices, among them a price that has no group of the fixed
  width, and on an unknown manufacturer or category; only then it encodes.
\<close>

definition encode ::
  "codec \<Rightarrow> string \<Rightarrow> string \<Rightarrow> int \<Rightarrow> int \<Rightarrow> int option \<Rightarrow> string \<Rightarrow> codec_error + ProductCode" where
  "encode cd categoryName manufacturerName wholesalePrice retailPrice buyPrice note =
    (if wholesalePrice \<le> 0 \<or> retailPrice \<le> 0 \<or> retailPrice \<le> wholesalePrice then Inl InvalidInput
     else if (case buyPrice of None \<Rightarrow> False | Some b \<Rightarrow> b \<le> 0 \<or> wholesalePrice \<le> b)
       then Inl InvalidInput
     else
       (case encodeCipher cd (nat wholesalePrice) (nat retailPrice) of
          None \<Rightarrow> Inl InvalidInput
        | Some c \<Rightarrow>
           (case map_of (manufacturerCodes cd) manufacturerName of
              None \<Rightarrow> Inl UnknownManufacturer
            | Some manufacturerCode \<Rightarrow>
               (case map_of (categoryCodes cd) categoryName of
                  None \<Rightarrow> Inl UnknownCategory
                | Some categoryCode \<Rightarrow>
                   (let s = manufacturerCode @ ''-'' @ categoryCode @ ''-'' @ c
                    in Inr \<lparr>sku = s, cipher = c, qrPayload = s, code128Payload = s\<rparr>)))))"


text \<open>
  \<open>specGenerator cd\<close> is \<open>encode\<close> behind the interface the handlers of the product form
  call.
\<close>

definition specGenerator :: "codec \<Rightarrow> generator" where
  "specGenerator cd args =
    (case encode cd (g_category args) (g_manufacturer args) (g_wholesalePrice args)
            (g_retailPrice args) (g_buyPrice args) (g_additionalInfo args) of
       Inl InvalidInput \<Rightarrow> Inl (Error ''Invalid input'')
     | Inl UnknownManufacturer \<Rightarrow> Inl (Error ''Unknown manufacturer'')
     | Inl UnknownCategory \<Rightarrow> Inl (Error ''Unknown category'')
     | Inr pc \<Rightarrow>
         Inr (Some \<lparr>bc_sku = sku pc, bc_qrCode = qrPayload pc, bc_code128 = code128Payload pc,
                    bc_cipher = cipher pc\<rparr>))"

text \<open>
  A codec for examples: the digits and capital letters without \<open>0\<close>, \<open>O\<close>, \<open>1\<close> and
  \<open>I\<close> (base 32), groups of four digits, and codes for one manufacturer and one
  category.
\<close>

definition exampleCodec :: codec where
  "exampleCodec =
     \<lparr>alphabet = ''23456789ABCDEFGHJKLMNPQRSTUVWXYZ'', width = 4,
      manufacturerCodes = [(''Cartier'', ''CA'')], categoryCodes = [(''Rings'', ''RG'')]\<rparr>"

definition exampleGenerator :: generator where
  "exampleGenerator = specGenerator exampleCodec"

definition exampleForm :: "int \<Rightarrow> int \<Rightarrow> int \<Rightarrow> formData" where
  "exampleForm buyPrice wholesalePrice retailPrice =
     \<lparr>fd_name = ''Love ring'', fd_description = [], fd_manufacturer = ''Cartier'',
      fd_category = ''Rings'', fd_buy_price = Some buyPrice,
      fd_wholesale_price = Some wholesalePrice, fd_retail_price = Some retailPrice,
      fd_stock_level = Some 1, fd_image_url = [], fd_additional_info = []\<rparr>"

definition emptyPreview :: preview where
  "emptyPreview = \<lparr>qrCode = [], generatedSKU = [], pv_error = None\<rparr>"

section \<open>Verification\<close>

subsection \<open>Markup resolution\<close>

lemma find_markup_nonzero:
  "list_all (\<lambda>s. markup s \<noteq> 0) settings \<Longrightarrow> find P settings = Some r \<Longrightarrow> markup r \<noteq> 0"
  by (induction settings) (auto split: if_splits)

lemma defaultMarkupSettings_nonzero: "list_all (\<lambda>s. markup s \<noteq> 0) defaultMarkupSettings"
  by (simp add: defaultMarkupSettings_def mkSetting_def)

text \<open>
  Claim C9. For every manufacturer and category, \<open>getMarkupForProduct\<close> returns the
  fraction of the manufacturer-scope rule whenever the table has one for the
  manufacturer, otherwise the fraction of the category-scope rule whenever the table has
  one for the category, otherwise the default 0.2. (The lookups are joined by \<open>||\<close>,
  which would pass over a fraction of 0; no rule of the table has one.)
\<close>

theorem getMarkupForProduct_resolution_order:
  "getMarkupForProduct manufacturer category
     = resolveMarkup_spec defaultMarkupSettings manufacturer category"
  using find_markup_nonzero [OF defaultMarkupSettings_nonzero]
  by (auto simp: getMarkupForProduct_def resolveMarkup_spec_def Let_def js_or_def
      split: option.splits)

subsection \<open>Bar patterns\<close>

lemma charPattern_length: "length (charPattern c) = 6"
  by (simp add: charPattern_def Let_def)

lemma code128Variation_length: "length (code128Variation c) = 6"
  by (simp add: code128Variation_def Let_def)

lemma barcodePatternLoop_length: "length (barcodePatternLoop t) = 6 * length t"
  by (induction t) (simp_all add: charPattern_length)

lemma code128Loop_length: "length (code128Loop i t) = 12 * length t"
  by (induction t arbitrary: i) (simp_all add: code128Variation_length)

lemma barcodePatternLoop_eq_iff:
  "barcodePatternLoop t1 = barcodePatternLoop t2 \<longleftrightarrow> map charPattern t1 = map charPattern t2"
proof (induction t1 arbitrary: t2)
  case Nil
  show ?case
  proof (cases t2)
    case Nil
    then show ?thesis by simp
  next
    case (Cons d ds)
    have "length (barcodePatternLoop (d # ds)) \<noteq> 0" by (simp add: charPattern_length)
    then show ?thesis using Cons by auto
  qed
next
  case (Cons c cs)
  show ?case
  proof (cases t2)
    case Nil
    have "length (barcodePatternLoop (c # cs)) \<noteq> 0" by (simp add: charPattern_length)
    then show ?thesis using Nil by auto
  next
    case (Cons d ds)
    then show ?thesis using Cons.IH [of ds] by (simp add: charPattern_length)
  qed
qed

lemma code128Loop_eq_iff:
  "code128Loop i t1 = code128Loop i t2 \<longleftrightarrow> map code128Variation t1 = map code128Variation t2"
proof (induction t1 arbitrary: t2 i)
  case Nil
  show ?case
  proof (cases t2)
    case Nil
    then show ?thesis by simp
  next
    case (Cons d ds)
    have "length (code128Loop i (d # ds)) \<noteq> 0" by simp
    then show ?thesis using Cons by auto
  qed
next
  case (Cons c cs)
  show ?case
  proof (cases t2)
    case Nil
    have "length (code128Loop i (c # cs)) \<noteq> 0" by simp
    then show ?thesis using Nil by auto
  next
    case (Cons d ds)
    then show ?thesis using Cons.IH [of "i + 1" ds] by (simp add: code128Variation_length)
  qed
qed

text \<open>
  Claim C8, as the specification states it: the emitted sequence carries a checksum
  pattern that changes when one character is substituted or two neighbours are
  exchanged. It fails: substituting \<open>B\<close> for \<open>A\<close>, or exchanging \<open>A\<close> and \<open>B\<close>, leaves
  the whole sequence of \<open>generateBarcodePattern\<close> as it was, and so does substituting
  \<open>D\<close> for \<open>A\<close> in \<open>generateCode128Bars\<close>.
\<close>

theorem checksum_sensitivity_counterexample:
  "generateBarcodePattern ''RIMO-A1'' = generateBarcodePattern ''RIMO-B1''
   \<and> generateBarcodePattern ''RIMO-AB'' = generateBarcodePattern ''RIMO-BA''
   \<and> generateCode128Bars ''RIMO-A1'' = generateCode128Bars ''RIMO-D1''
   \<and> generateCode128Bars ''RIMO-AD'' = generateCode128Bars ''RIMO-DA''"
  by (simp add: generateBarcodePattern_def generateCode128Bars_def charPattern_def
      code128Variation_def charCodeAt_def)

text \<open>
  Claim C8, amended. Both encoders emit the start pattern, a fixed number of widths per
  character and the stop pattern, and nothing else: there is no checksum pattern. Two
  texts get the same sequence exactly when they agree, position by position, in the
  per-character pattern (the class digit, upper case, lower case or other for
  \<open>generateBarcodePattern\<close>; the character code modulo 32 modulo 3 for
  \<open>generateCode128Bars\<close>).
\<close>

theorem bars_determined_by_character_patterns:
  "length (generateBarcodePattern t1) = 14 + 6 * length t1
   \<and> length (generateCode128Bars t1) = 13 + 12 * length t1
   \<and> (generateBarcodePattern t1 = generateBarcodePattern t2
        \<longleftrightarrow> map charPattern t1 = map charPattern t2)
   \<and> (generateCode128Bars t1 = generateCode128Bars t2
        \<longleftrightarrow> map code128Variation t1 = map code128Variation t2)"
  by (simp add: generateBarcodePattern_def generateCode128Bars_def barcodePatternLoop_eq_iff
      code128Loop_eq_iff barcodePatternLoop_length code128Loop_length)

theorem bars_determined_by_character_patterns_witness:
  "length (generateBarcodePattern ''A7'') = 26
   \<and> generateBarcodePattern ''A7'' = generateBarcodePattern ''Z0''
   \<and> generateBarcodePattern ''A7'' \<noteq> generateBarcodePattern ''a7''
   \<and> generateCode128Bars ''A7'' \<noteq> generateCode128Bars ''B7''"
  using bars_determined_by_character_patterns [of "''A7''" "''Z0''"]
    bars_determined_by_character_patterns [of "''A7''" "''a7''"]
    bars_determined_by_character_patterns [of "''A7''" "''B7''"]
  by (simp add: charPattern_def code128Variation_def charCodeAt_def)

subsection \<open>The bulk ledger\<close>

lemma ledger_le_refl: "ledger_le xs xs"
  by (induction xs) auto

lemma ledger_le_trans: "ledger_le xs ys \<Longrightarrow> ledger_le ys zs \<Longrightarrow> ledger_le xs zs"
proof (induction xs ys arbitrary: zs rule: ledger_le.induct)
  case (1 new)
  then show ?case by simp
next
  case (2 a as)
  then show ?case by simp
next
  case (3 a as b bs)
  then show ?case by (cases zs) auto
qed

lemma ledger_le_append: "ledger_le xs (xs @ ys)"
  by (induction xs) auto

lemma ledger_le_map:
  "(\<And>x. item_sku (f x) = item_sku x \<and> quantity x \<le> quantity (f x)) \<Longrightarrow> ledger_le xs (map f xs)"
  by (induction xs) auto

lemma ledger_le_qtyOf: "ledger_le xs ys \<Longrightarrow> qtyOf sk xs \<le> qtyOf sk ys"
  unfolding qtyOf_def
  by (induction xs ys rule: ledger_le.induct) auto

lemma findIndex_Some: "findIndex P xs = Some i \<Longrightarrow> i < length xs \<and> P (xs ! i) \<and> (\<forall>j<i. \<not> P (xs ! j))"
proof (induction xs arbitrary: i)
  case Nil
  then show ?case by simp
next
  case (Cons x xs)
  show ?case
  proof (cases "P x")
    case True
    with Cons.prems show ?thesis by simp
  next
    case False
    with Cons.prems obtain k where k: "findIndex P xs = Some k" "i = Suc k" by auto
    from Cons.IH [OF k(1)] False k(2) show ?thesis
      by (auto simp: less_Suc_eq_0_disj)
  qed
qed

lemma findIndex_None: "findIndex P xs = None \<longleftrightarrow> (\<forall>x\<in>set xs. \<not> P x)"
  by (induction xs) auto

lemma ledger_le_update:
  "i < length xs \<Longrightarrow> quantity (xs ! i) \<le> q \<Longrightarrow> ledger_le xs (xs[i := (xs ! i)\<lparr>quantity := q\<rparr>])"
proof (induction xs arbitrary: i)
  case Nil
  then show ?case by simp
next
  case (Cons x xs)
  then show ?case by (cases i) (auto simp: ledger_le_refl)
qed

lemma ledger_le_incrementFirst: "ledger_le prev (incrementFirst sk prev)"
proof (cases "findIndex (\<lambda>item. item_sku item = sk) prev")
  case None
  then show ?thesis by (simp add: incrementFirst_def ledger_le_refl)
next
  case (Some i)
  then have "i < length prev" using findIndex_Some by fastforce
  then show ?thesis using Some by (simp add: incrementFirst_def ledger_le_update)
qed

lemma ledger_le_processSku: "ledger_le (bulkItems s) (bulkItems (processSku sk s))"
  by (simp add: processSku_def ledger_le_refl ledger_le_append ledger_le_incrementFirst
      split: option.splits)

lemma ledger_le_handleManualSubmit: "ledger_le (bulkItems s) (bulkItems (handleManualSubmit sk s))"
  by (simp add: handleManualSubmit_def ledger_le_refl ledger_le_append ledger_le_map
      split: option.splits)

lemma ledger_le_processAll: "ledger_le (bulkItems s) (bulkItems (processAll ms s))"
proof (induction ms arbitrary: s)
  case Nil
  then show ?case by (simp add: ledger_le_refl)
next
  case (Cons m ms)
  show ?case
    using ledger_le_trans [OF ledger_le_processSku Cons.IH] by simp
qed

lemma ledger_le_processBuffer: "ledger_le (bulkItems s) (bulkItems (processBuffer s))"
  by (simp add: processBuffer_def Let_def ledger_le_refl ledger_le_processAll ledger_le_processSku)

lemma bulkItems_buffer_update [simp]: "bulkItems (processSku sk (s\<lparr>buffer := b\<rparr>)) = bulkItems (processSku sk s)"
  by (simp add: processSku_def split: option.splits)

lemma ledger_le_appendKey: "ledger_le (bulkItems s) (bulkItems (appendKey k s))"
  by (simp add: appendKey_def Let_def ledger_le_refl ledger_le_processSku)

lemma bulkItems_processBuffer_cong:
  "bulkItems s' = bulkItems s \<Longrightarrow> ledger_le (bulkItems s) (bulkItems (processBuffer s'))"
  using ledger_le_processBuffer [of s'] by simp

lemma bulkItems_appendKey_cong:
  "bulkItems s' = bulkItems s \<Longrightarrow> ledger_le (bulkItems s) (bulkItems (appendKey k s'))"
  using ledger_le_appendKey [of s' k] by simp

lemma ledger_le_handleKeyDown: "ledger_le (bulkItems s) (bulkItems (handleKeyDown s e))"
  by (simp add: handleKeyDown_def Let_def ledger_le_refl bulkItems_processBuffer_cong
      bulkItems_appendKey_cong)

lemma ledger_le_keydown: "ledger_le (bulkItems s) (bulkItems (keydown s e))"
  by (simp add: keydown_def ledger_le_refl ledger_le_handleKeyDown)

text \<open>
  Claim C10. Dispatching a token, by \<open>processSku\<close>, by manual submission or by any
  key event, never removes a row of the bulk ledger and never lowers a quantity: every
  row keeps its index and SKU, and the accumulated quantity of every SKU does not
  decrease. (Rows go away only by \<open>clearAll\<close>, \<open>deleteRow\<close> and \<open>handleBulkComplete\<close>.)
\<close>

theorem dispatch_never_shrinks_ledger:
  "ledger_le (bulkItems s) (bulkItems (processSku sk s))
   \<and> ledger_le (bulkItems s) (bulkItems (handleManualSubmit sk s))
   \<and> ledger_le (bulkItems s) (bulkItems (keydown s e))
   \<and> qtyOf k (bulkItems s) \<le> qtyOf k (bulkItems (processSku sk s))
   \<and> qtyOf k (bulkItems s) \<le> qtyOf k (bulkItems (handleManualSubmit sk s))
   \<and> qtyOf k (bulkItems s) \<le> qtyOf k (bulkItems (keydown s e))"
  by (simp add: ledger_le_processSku ledger_le_handleManualSubmit ledger_le_keydown ledger_le_qtyOf)

lemma bulkItemsMap_foldl_None:
  "foldl (\<lambda>m item. m(item_sku item \<mapsto> item)) m0 items sk = None
     \<longleftrightarrow> m0 sk = None \<and> sk \<notin> item_sku ` set items"
  by (induction items arbitrary: m0) auto

lemma bulkItemsMap_None: "bulkItemsMap items sk = None \<longleftrightarrow> sk \<notin> item_sku ` set items"
  by (simp add: bulkItemsMap_def bulkItemsMap_foldl_None)

lemma find_sku_None: "find (\<lambda>item. item_sku item = sk) items = None \<longleftrightarrow> sk \<notin> item_sku ` set items"
  by (auto simp: find_None_iff)

lemma incrementFirst_distinct:
  "distinct (map item_sku prev) \<Longrightarrow>
   incrementFirst sk prev =
     map (\<lambda>item. if item_sku item = sk then item\<lparr>quantity := quantity item + 1\<rparr> else item) prev"
proof (induction prev)
  case Nil
  then show ?case by (simp add: incrementFirst_def)
next
  case (Cons x xs)
  show ?case
  proof (cases "item_sku x = sk")
    case True
    with Cons.prems have "sk \<notin> item_sku ` set xs" by auto
    then have "map (\<lambda>item. if item_sku item = sk then item\<lparr>quantity := quantity item + 1\<rparr> else item) xs = xs"
      by (induction xs) auto
    with True show ?thesis by (simp add: incrementFirst_def)
  next
    case False
    with Cons show ?thesis
      by (auto simp: incrementFirst_def split: option.splits)
  qed
qed

lemma processSku_in_sync:
  assumes "bulkMode s" "sk \<noteq> []" "rendered s = bulkItems s" "distinct (map item_sku (bulkItems s))"
  shows "bulkItems (processSku sk s) = bulkDispatch_spec sk (bulkItems s)"
proof (cases "sk \<in> item_sku ` set (bulkItems s)")
  case True
  then obtain it where "bulkItemsMap (rendered s) sk = Some it"
    using bulkItemsMap_None [of "rendered s" sk] assms(3) by fastforce
  then show ?thesis
    using True assms by (simp add: processSku_def bulkDispatch_spec_def incrementFirst_distinct)
next
  case False
  then have "bulkItemsMap (rendered s) sk = None"
    using bulkItemsMap_None [of "rendered s" sk] assms(3) by simp
  then show ?thesis
    using False assms by (simp add: processSku_def bulkDispatch_spec_def)
qed

lemma handleManualSubmit_in_sync:
  assumes "bulkMode s" "sk \<noteq> []" "rendered s = bulkItems s"
  shows "bulkItems (handleManualSubmit sk s) = bulkDispatch_spec sk (bulkItems s)"
proof (cases "sk \<in> item_sku ` set (bulkItems s)")
  case True
  then obtain it where "find (\<lambda>item. item_sku item = sk) (rendered s) = Some it"
    using find_sku_None [of sk "rendered s"] assms(3) by fastforce
  then show ?thesis
    using True assms by (simp add: handleManualSubmit_def bulkDispatch_spec_def)
next
  case False
  then have "find (\<lambda>item. item_sku item = sk) (rendered s) = None"
    using find_sku_None [of sk "rendered s"] assms(3) by simp
  then show ?thesis
    using False assms by (simp add: handleManualSubmit_def bulkDispatch_spec_def)
qed

lemma map_item_sku_increment:
  "map item_sku (map (\<lambda>item. if item_sku item = sk then item\<lparr>quantity := quantity item + 1\<rparr> else item) items)
     = map item_sku items"
  by (induction items) auto

lemma bulkDispatch_spec_distinct:
  assumes "distinct (map item_sku items)"
  shows "distinct (map item_sku (bulkDispatch_spec sk items))"
proof (cases "sk \<in> item_sku ` set items")
  case True
  then show ?thesis
    using assms by (simp only: bulkDispatch_spec_def if_True map_item_sku_increment)
next
  case False
  then show ?thesis
    using assms by (simp add: bulkDispatch_spec_def)
qed

lemma processSku_fields [simp]:
  "bulkMode (processSku sk s) = bulkMode s"
  "rendered (processSku sk s) = rendered s"
  "buffer (processSku sk s) = buffer s"
  "lastKeyTime (processSku sk s) = lastKeyTime s"
  "scanning (processSku sk s) = scanning s"
  by (simp_all add: processSku_def split: option.splits)

lemma rerender_fields [simp]:
  "bulkMode (rerender s) = bulkMode s"
  "rendered (rerender s) = bulkItems s"
  "bulkItems (rerender s) = bulkItems s"
  by (simp_all add: rerender_def)

lemma three_scans:
  assumes "bulkMode s" "sk \<noteq> []" "bulkItems s = []" "rendered s = []"
  shows "bulkItems (processSku sk (rerender (processSku sk (rerender (processSku sk s)))))
         = [\<lparr>item_sku = sk, quantity = 3\<rparr>]"
proof -
  have 1: "bulkItems (processSku sk s) = [\<lparr>item_sku = sk, quantity = 1\<rparr>]"
    using processSku_in_sync [of s sk] assms by (simp add: bulkDispatch_spec_def)
  let ?s1 = "rerender (processSku sk s)"
  have 2: "bulkItems (processSku sk ?s1) = [\<lparr>item_sku = sk, quantity = 2\<rparr>]"
    using processSku_in_sync [of ?s1 sk] assms 1 by (simp add: bulkDispatch_spec_def)
  let ?s2 = "rerender (processSku sk ?s1)"
  show ?thesis
    using processSku_in_sync [of ?s2 sk] assms 2 by (simp add: bulkDispatch_spec_def)
qed

text \<open>
  With current closures (React has rendered since the ledger last changed) and rows of
  distinct SKUs, a dispatch increments the row of the token or appends the token with
  quantity one, and three dispatches with a render after each leave one row of
  quantity 3.
\<close>

lemma bulk_dispatch_current_closures:
  assumes "bulkMode s" "sk \<noteq> []" "rendered s = bulkItems s" "distinct (map item_sku (bulkItems s))"
  shows "bulkItems (processSku sk s) = bulkDispatch_spec sk (bulkItems s)
       \<and> bulkItems (handleManualSubmit sk s) = bulkDispatch_spec sk (bulkItems s)
       \<and> distinct (map item_sku (bulkDispatch_spec sk (bulkItems s)))
       \<and> bulkItems (processSku sk (rerender (processSku sk (rerender
             (processSku sk (s\<lparr>bulkItems := [], rendered := []\<rparr>))))))
           = [\<lparr>item_sku = sk, quantity = 3\<rparr>]"
  using assms three_scans [of "s\<lparr>bulkItems := [], rendered := []\<rparr>" sk]
  by (simp add: processSku_in_sync handleManualSubmit_in_sync bulkDispatch_spec_distinct)

subsection \<open>The key handler\<close>

lemma gaps_ok_snoc:
  "gaps_ok (es @ [e]) \<longleftrightarrow> gaps_ok es \<and> (es = [] \<or> now e - now (last es) \<le> SCAN_TIMEOUT)"
  by (induction es rule: gaps_ok.induct) auto

lemma gaps_ok_append: "gaps_ok (xs @ ys) \<Longrightarrow> gaps_ok xs \<and> gaps_ok ys"
proof (induction ys rule: rev_induct)
  case Nil
  then show ?case by simp
next
  case (snoc y ys)
  from snoc.prems have "gaps_ok ((xs @ ys) @ [y])" by simp
  then have a: "gaps_ok (xs @ ys)" and b: "xs @ ys = [] \<or> now y - now (last (xs @ ys)) \<le> SCAN_TIMEOUT"
    using gaps_ok_snoc [of "xs @ ys" y] by auto
  from snoc.IH [OF a] b show ?case
    by (cases "ys = []") (auto simp: gaps_ok_snoc)
qed

lemma suffix_drop_window:
  assumes "suffix u x" "length u \<le> n"
  shows "suffix u (drop (length x - n) x)"
proof -
  from assms(1) obtain v where x: "x = v @ u" by (auto simp: suffix_def)
  have "drop (length x - n) x = drop (length x - n) v @ u"
    using assms(2) by (simp add: x)
  then show ?thesis by (simp add: suffix_def)
qed

lemma suffix_truncateBuffer:
  "suffix u b \<Longrightarrow> length u \<le> 200 \<Longrightarrow> suffix u (truncateBuffer b)"
  using suffix_drop_window [of u b 200]
  by (auto simp: truncateBuffer_def substring_def nat_diff_distrib')

lemma lastIndexFrom_hit:
  "prefix p (drop n str) \<Longrightarrow> lastIndexFrom str p n = int n"
  by (cases n) auto

lemma lastIndexOf_suffix:
  assumes "suffix p str"
  shows "lastIndexOf str p = int (length str) - int (length p)"
proof -
  from assms obtain v where str: "str = v @ p" by (auto simp: suffix_def)
  have "prefix p (drop (length str - length p) str)" by (simp add: str)
  then have "lastIndexFrom str p (length str - length p) = int (length str - length p)"
    by (rule lastIndexFrom_hit)
  then show ?thesis by (simp add: lastIndexOf_def str)
qed

lemma appendKey_truncate:
  "appendKey k s =
    (let b2 = truncateBuffer (buffer s @ k); s2 = s\<lparr>buffer := b2\<rparr>
     in if suffix SKU_PATTERN b2 then
          (let s3 = processSku SKU_PATTERN s2;
               patternIndex = lastIndexOf (buffer s3) SKU_PATTERN
           in s3\<lparr>buffer := substring (buffer s3) (patternIndex + int (length SKU_PATTERN))\<rparr>)
        else s2)"
  by (simp add: appendKey_def truncateBuffer_def Let_def)

lemma appendKey_match:
  assumes "suffix SKU_PATTERN (truncateBuffer (buffer s @ k))"
  shows "appendKey k s = (processSku SKU_PATTERN (s\<lparr>buffer := truncateBuffer (buffer s @ k)\<rparr>))\<lparr>buffer := []\<rparr>"
  using assms lastIndexOf_suffix [OF assms]
  by (simp add: appendKey_truncate Let_def substring_def)

lemma appendKey_no_match:
  assumes "\<not> suffix SKU_PATTERN (truncateBuffer (buffer s @ k))"
  shows "appendKey k s = s\<lparr>buffer := truncateBuffer (buffer s @ k)\<rparr>"
  using assms by (simp add: appendKey_truncate Let_def)

lemma truncateBuffer_last:
  "b \<noteq> [] \<Longrightarrow> truncateBuffer b \<noteq> [] \<and> last (truncateBuffer b) = last b"
  by (auto simp: truncateBuffer_def substring_def nat_diff_distrib')

lemma not_suffix_last:
  assumes "c \<noteq> CHR ''7''"
  shows "\<not> suffix SKU_PATTERN (truncateBuffer (b @ [c]))"
proof
  assume a: "suffix SKU_PATTERN (truncateBuffer (b @ [c]))"
  then obtain v where "truncateBuffer (b @ [c]) = v @ SKU_PATTERN" by (auto simp: suffix_def)
  then have "last (truncateBuffer (b @ [c])) = CHR ''7''" by (simp add: SKU_PATTERN_def)
  moreover have "last (truncateBuffer (b @ [c])) = c"
    using truncateBuffer_last [of "b @ [c]"] by simp
  ultimately show False using assms by simp
qed

text \<open>A key event of one character other than the last one of the pattern.\<close>

lemma handleKeyDown_char:
  assumes "key e = [c]" "c \<noteq> CHR ''7''" "c \<noteq> CHR ''d''"
  shows "handleKeyDown s e =
     s\<lparr>buffer := truncateBuffer ((if now e - lastKeyTime s > SCAN_TIMEOUT then [] else buffer s) @ [c]),
       lastKeyTime := now e\<rparr>"
  using assms not_suffix_last [OF assms(2)]
  by (simp add: handleKeyDown_def Let_def appendKey_no_match)

lemma handleKeyDown_last_char:
  assumes "key e = ''7''" "now e - lastKeyTime s \<le> SCAN_TIMEOUT" "suffix ''RIMO120059'' (buffer s)"
  shows "handleKeyDown s e =
     (processSku SKU_PATTERN (s\<lparr>lastKeyTime := now e, buffer := truncateBuffer (buffer s @ ''7'')\<rparr>))\<lparr>buffer := []\<rparr>"
proof -
  have "suffix (''RIMO120059'' @ ''7'') (buffer s @ ''7'')"
    using assms(3) by (simp only: suffix_append) (auto simp: suffix_def)
  then have "suffix SKU_PATTERN (truncateBuffer (buffer s @ ''7''))"
    using suffix_truncateBuffer [of SKU_PATTERN "buffer s @ ''7''"] by (simp add: SKU_PATTERN_def)
  then show ?thesis
    using assms(1,2) appendKey_match [of "s\<lparr>lastKeyTime := now e\<rparr>" "''7''"]
    by (simp add: handleKeyDown_def Let_def)
qed


lemma runKeys_snoc: "runKeys s (es @ [e]) = keydown (runKeys s es) e"
  by (simp add: runKeys_def)

lemma runKeys_append: "runKeys s (xs @ ys) = runKeys (runKeys s xs) ys"
  by (simp add: runKeys_def)

lemma runKeys_Nil: "runKeys s [] = s"
  by (simp add: runKeys_def)

lemma runKeys_Cons: "runKeys s (e # es) = runKeys (keydown s e) es"
  by (simp add: runKeys_def)

text \<open>
  Typing characters none of which ends the pattern: nothing is emitted, and the
  buffer ends with what was typed.
\<close>

lemma typing_prefix:
  assumes "scanning s" "map key es = map (\<lambda>c. [c]) cs" "gaps_ok es" "es \<noteq> []"
    "CHR ''7'' \<notin> set cs" "CHR ''d'' \<notin> set cs" "length cs \<le> 200"
  shows "\<exists>b. runKeys s es = s\<lparr>buffer := b, lastKeyTime := now (last es)\<rparr> \<and> suffix cs b"
  using assms(2-)
proof (induction es arbitrary: cs rule: rev_induct)
  case Nil
  then show ?case by simp
next
  case (snoc e es)
  from snoc.prems(1) obtain cs' c where cs: "cs = cs' @ [c]" "map key es = map (\<lambda>c. [c]) cs'" "key e = [c]"
    by (cases cs rule: rev_cases) auto
  from snoc.prems cs have c: "c \<noteq> CHR ''7''" "c \<noteq> CHR ''d''" by auto
  show ?case
  proof (cases "es = []")
    case True
    with cs have "cs' = []" by simp
    have "runKeys s [e] = s\<lparr>buffer := truncateBuffer ((if now e - lastKeyTime s > SCAN_TIMEOUT then [] else buffer s) @ [c]),
       lastKeyTime := now e\<rparr>"
      using assms(1) handleKeyDown_char [OF cs(3) c] by (simp add: runKeys_def keydown_def)
    moreover have "suffix [c] (truncateBuffer ((if now e - lastKeyTime s > SCAN_TIMEOUT then [] else buffer s) @ [c]))"
      by (rule suffix_truncateBuffer) (auto simp: suffix_def)
    ultimately show ?thesis using True \<open>cs' = []\<close> cs(1) by auto
  next
    case False
    from snoc.prems(2) have g: "gaps_ok es" "now e - now (last es) \<le> SCAN_TIMEOUT"
      using False by (auto simp: gaps_ok_snoc)
    from snoc.prems cs have "CHR ''7'' \<notin> set cs'" "CHR ''d'' \<notin> set cs'" "length cs' \<le> 200" by auto
    from snoc.IH [OF cs(2) g(1) False this]
    obtain b where b: "runKeys s es = s\<lparr>buffer := b, lastKeyTime := now (last es)\<rparr>" "suffix cs' b"
      by blast
    have "runKeys s (es @ [e]) = s\<lparr>buffer := truncateBuffer (b @ [c]), lastKeyTime := now e\<rparr>"
      using assms(1) g(2) handleKeyDown_char [OF cs(3) c, of "runKeys s es"] b(1)
      by (simp add: runKeys_snoc keydown_def)
    moreover have "suffix (cs' @ [c]) (truncateBuffer (b @ [c]))"
      using b(2) snoc.prems(6) cs(1) by (intro suffix_truncateBuffer) (auto simp: suffix_def)
    ultimately show ?thesis using cs(1) by auto
  qed
qed

lemma processSku_emitted: "sk \<noteq> [] \<Longrightarrow> emitted (processSku sk s) = emitted s @ [sk]"
  by (simp add: processSku_def split: option.splits)

lemma processSku_other_fields:
  "processSku sk (s\<lparr>buffer := b, lastKeyTime := t\<rparr>) = (processSku sk s)\<lparr>buffer := b, lastKeyTime := t\<rparr>"
  "processSku sk (s\<lparr>lastKeyTime := t, buffer := b\<rparr>) = (processSku sk s)\<lparr>lastKeyTime := t, buffer := b\<rparr>"
  by (simp_all add: processSku_def split: option.splits)

text \<open>Typing the whole pattern: one token is emitted, at the last key, and the buffer is left empty.\<close>

lemma typing_token:
  assumes "scanning s" "map key es = map (\<lambda>c. [c]) SKU_PATTERN" "gaps_ok es"
  shows "runKeys s es = (processSku SKU_PATTERN s)\<lparr>buffer := [], lastKeyTime := now (last es)\<rparr>"
proof -
  from assms(2) obtain es' e where es: "es = es' @ [e]" "map key es' = map (\<lambda>c. [c]) ''RIMO120059''" "key e = ''7''"
    by (cases es rule: rev_cases) (auto simp: SKU_PATTERN_def)
  from es(2) have ne: "es' \<noteq> []" by auto
  from assms(3) es(1) ne have g: "gaps_ok es'" "now e - now (last es') \<le> SCAN_TIMEOUT"
    by (auto simp: gaps_ok_snoc)
  from typing_prefix [OF assms(1) es(2) g(1) ne]
  obtain b where b: "runKeys s es' = s\<lparr>buffer := b, lastKeyTime := now (last es')\<rparr>" "suffix ''RIMO120059'' b"
    by auto
  have "runKeys s es = keydown (s\<lparr>buffer := b, lastKeyTime := now (last es')\<rparr>) e"
    by (simp add: es(1) runKeys_snoc b(1))
  also have "\<dots> = (processSku SKU_PATTERN s)\<lparr>buffer := [], lastKeyTime := now e\<rparr>"
    using assms(1) g(2) b(2) es(3)
      handleKeyDown_last_char [of e "s\<lparr>buffer := b, lastKeyTime := now (last es')\<rparr>"]
    by (simp add: keydown_def processSku_other_fields)
  finally show ?thesis by (simp add: es(1))
qed


lemma gaps_ok_take: "gaps_ok es \<Longrightarrow> gaps_ok (take k es)"
  using gaps_ok_append [of "take k es" "drop k es"] by simp

lemma gaps_ok_drop: "gaps_ok es \<Longrightarrow> gaps_ok (drop k es)"
  using gaps_ok_append [of "take k es" "drop k es"] by simp

lemma pattern_prefix_chars:
  assumes "k < 11"
  shows "CHR ''7'' \<notin> set (take k SKU_PATTERN) \<and> CHR ''d'' \<notin> set (take k SKU_PATTERN)"
proof -
  from assms have "set (take k SKU_PATTERN) \<subseteq> set (take 10 SKU_PATTERN)"
    by (intro set_take_subset_set_take) simp
  moreover have "take 10 SKU_PATTERN = ''RIMO120059''" by (simp add: SKU_PATTERN_def)
  ultimately show ?thesis by auto
qed

lemma typing_partial:
  assumes "scanning s" "map key es = map (\<lambda>c. [c]) SKU_PATTERN" "gaps_ok es" "k < 11"
  shows "emitted (runKeys s (take k es)) = emitted s"
proof (cases "k = 0")
  case True
  then show ?thesis by (simp add: runKeys_Nil)
next
  case False
  have "length (map key es) = length (map (\<lambda>c. [c]) SKU_PATTERN)"
    using assms(2) by simp
  then have len: "length es = 11" by (simp add: SKU_PATTERN_def)
  have m: "map key (take k es) = map (\<lambda>c. [c]) (take k SKU_PATTERN)"
    using assms(2) by (simp add: take_map [symmetric])
  have ne: "take k es \<noteq> []" using False len by auto
  have l: "length (take k SKU_PATTERN) \<le> 200" using assms(4) by simp
  have c: "CHR ''7'' \<notin> set (take k SKU_PATTERN)" "CHR ''d'' \<notin> set (take k SKU_PATTERN)"
    using pattern_prefix_chars [OF assms(4)] by simp_all
  from typing_prefix [OF assms(1) m gaps_ok_take [OF assms(3)] ne c l]
  obtain b where "runKeys s (take k es) = s\<lparr>buffer := b, lastKeyTime := now (last (take k es))\<rparr>"
    by auto
  then show ?thesis by simp
qed

text \<open>
  Claim C4. While the listener is attached, let the keys of two copies of the
  recognised token arrive one after the other, every gap between consecutive keys at
  most the inactivity threshold, from any state of the parser (whatever the buffer
  holds). Then exactly two tokens are emitted, in order: nothing during the first ten
  keys, the first token at the eleventh key, nothing more up to the twenty-first, the
  second token at the last key. After each match the buffer holds what follows the
  match, which is nothing.
\<close>

theorem two_tokens_back_to_back:
  assumes "scanning s" "map key es = map (\<lambda>c. [c]) (SKU_PATTERN @ SKU_PATTERN)" "gaps_ok es"
  shows "emitted (runKeys s es) = emitted s @ [SKU_PATTERN, SKU_PATTERN]
       \<and> buffer (runKeys s es) = []
       \<and> emitted (runKeys s (take 11 es)) = emitted s @ [SKU_PATTERN]
       \<and> buffer (runKeys s (take 11 es)) = []
       \<and> (\<forall>k<11. emitted (runKeys s (take k es)) = emitted s
                 \<and> emitted (runKeys s (take (11 + k) es)) = emitted s @ [SKU_PATTERN])"
proof -
  let ?es1 = "take 11 es" and ?es2 = "drop 11 es"
  have es: "es = ?es1 @ ?es2" by simp
  have m1: "map key ?es1 = map (\<lambda>c. [c]) SKU_PATTERN"
    using arg_cong [OF assms(2), of "take 11"] by (simp add: take_map SKU_PATTERN_def)
  have m2: "map key ?es2 = map (\<lambda>c. [c]) SKU_PATTERN"
    using arg_cong [OF assms(2), of "drop 11"] by (simp add: drop_map SKU_PATTERN_def)
  have g1: "gaps_ok ?es1" and g2: "gaps_ok ?es2"
    using assms(3) by (simp_all add: gaps_ok_take gaps_ok_drop)
  let ?s1 = "runKeys s ?es1"
  have s1: "?s1 = (processSku SKU_PATTERN s)\<lparr>buffer := [], lastKeyTime := now (last ?es1)\<rparr>"
    by (rule typing_token [OF assms(1) m1 g1])
  have ne: "SKU_PATTERN \<noteq> []" by (simp add: SKU_PATTERN_def)
  have e1: "emitted ?s1 = emitted s @ [SKU_PATTERN]" and b1: "buffer ?s1 = []"
    and sc1: "scanning ?s1"
    using assms(1) by (simp_all add: s1 processSku_emitted [OF ne])
  have s2: "runKeys ?s1 ?es2 = (processSku SKU_PATTERN ?s1)\<lparr>buffer := [], lastKeyTime := now (last ?es2)\<rparr>"
    by (rule typing_token [OF sc1 m2 g2])
  have whole: "runKeys s es = runKeys ?s1 ?es2"
    using runKeys_append [of s ?es1 ?es2] by simp
  have e2: "emitted (runKeys s es) = emitted s @ [SKU_PATTERN, SKU_PATTERN]"
    by (simp add: whole s2 processSku_emitted [OF ne] e1)
  have b2: "buffer (runKeys s es) = []"
    by (simp add: whole s2)
  have mid: "emitted (runKeys s (take k es)) = emitted s
       \<and> emitted (runKeys s (take (11 + k) es)) = emitted s @ [SKU_PATTERN]" if k: "k < 11" for k
  proof -
    have "take k es = take k ?es1" using k by (simp add: min_def)
    then have a: "emitted (runKeys s (take k es)) = emitted s"
      using typing_partial [OF assms(1) m1 g1 k] by simp
    have "length (map key es) = length (map (\<lambda>c. [c]) (SKU_PATTERN @ SKU_PATTERN))"
      using assms(2) by simp
    then have "length es = 22" by (simp add: SKU_PATTERN_def)
    then have "take (11 + k) es = ?es1 @ take k ?es2"
      using take_add [of 11 k es] by simp
    then have "runKeys s (take (11 + k) es) = runKeys ?s1 (take k ?es2)"
      by (simp add: runKeys_append)
    then have "emitted (runKeys s (take (11 + k) es)) = emitted s @ [SKU_PATTERN]"
      using typing_partial [OF sc1 m2 g2 k] e1 by simp
    with a show ?thesis by simp
  qed
  show ?thesis using e1 b1 e2 b2 mid by blast
qed

theorem two_tokens_back_to_back_witness:
  "emitted (runKeys (initialScanner True False) (typeKeys ''RIMO1200597RIMO1200597'' 1000))
     = [''RIMO1200597'', ''RIMO1200597'']
   \<and> buffer (runKeys (initialScanner True False) (typeKeys ''RIMO1200597RIMO1200597'' 1000)) = []"
  using two_tokens_back_to_back [of "initialScanner True False" "typeKeys ''RIMO1200597RIMO1200597'' 1000"]
  by (simp add: initialScanner_def typeKeys_def SKU_PATTERN_def SCAN_TIMEOUT_def)

lemma handleKeyDown_after_pause:
  assumes "now e - lastKeyTime s > SCAN_TIMEOUT" "key e \<noteq> ''Escape''" "\<not> (ctrlKey e \<and> key e = ''d'')"
    "key e \<noteq> ''Shift''"
  shows "handleKeyDown s e = handleKeyDown (s\<lparr>buffer := []\<rparr>) e"
  using assms by (auto simp: handleKeyDown_def Let_def)

lemma appendKey_single_char:
  "buffer s = [] \<Longrightarrow> appendKey [c] s = s\<lparr>buffer := [c]\<rparr>"
  by (simp add: appendKey_def Let_def SKU_PATTERN_def suffix_def)

text \<open>
  Claim C5. When a key other than Escape, Ctrl+D and Shift arrives more than the
  inactivity threshold after the last recorded key, what the buffer held is discarded
  before the key is handled: the parser goes on, for every continuation of the stream,
  exactly as from the empty buffer, so nothing it emits afterwards contains a character
  from before the gap. For a character key the buffer then holds that character alone.
\<close>

theorem pause_discards_partial_token:
  assumes "scanning s" "now e - lastKeyTime s > SCAN_TIMEOUT"
    "key e \<noteq> ''Escape''" "\<not> (ctrlKey e \<and> key e = ''d'')" "key e \<noteq> ''Shift''"
  shows "runKeys s (e # es) = runKeys (s\<lparr>buffer := []\<rparr>) (e # es)
       \<and> (\<forall>c. key e = [c] \<longrightarrow>
             keydown s e = s\<lparr>buffer := [c], lastKeyTime := now e\<rparr>)"
proof -
  have "keydown s e = keydown (s\<lparr>buffer := []\<rparr>) e"
    using assms(1) handleKeyDown_after_pause [OF assms(2-5)] by (simp add: keydown_def)
  then have a: "runKeys s (e # es) = runKeys (s\<lparr>buffer := []\<rparr>) (e # es)"
    by (simp add: runKeys_Cons)
  have b: "keydown s e = s\<lparr>buffer := [c], lastKeyTime := now e\<rparr>" if "key e = [c]" for c
    using assms that
    by (auto simp: keydown_def handleKeyDown_def Let_def appendKey_single_char)
  from a b show ?thesis by blast
qed

theorem pause_discards_partial_token_witness:
  "runKeys ((initialScanner True False)\<lparr>buffer := ''RIMO12'', lastKeyTime := 1000\<rparr>)
     [\<lparr>key = ''R'', ctrlKey = False, now = 2000\<rparr>, \<lparr>key = ''I'', ctrlKey = False, now = 2005\<rparr>]
   = (initialScanner True False)\<lparr>buffer := ''RI'', lastKeyTime := 2005\<rparr>
   \<and> keydown ((initialScanner True False)\<lparr>buffer := ''RIMO12'', lastKeyTime := 1000\<rparr>)
        \<lparr>key = ''R'', ctrlKey = False, now = 2000\<rparr>
     = (initialScanner True False)\<lparr>buffer := ''R'', lastKeyTime := 2000\<rparr>"
  using pause_discards_partial_token
    [of "(initialScanner True False)\<lparr>buffer := ''RIMO12'', lastKeyTime := 1000\<rparr>"
        "\<lparr>key = ''R'', ctrlKey = False, now = 2000\<rparr>"
        "[\<lparr>key = ''I'', ctrlKey = False, now = 2005\<rparr>]"]
  by (simp add: initialScanner_def SCAN_TIMEOUT_def runKeys_def keydown_def handleKeyDown_def
      appendKey_def Let_def SKU_PATTERN_def suffix_def)

lemma shift_is_frame:
  "key e = ''Shift'' \<Longrightarrow> handleKeyDown s e = s\<lparr>isShiftPressed := True\<rparr>"
  by (simp add: handleKeyDown_def)

lemma control_alt_within_timeout:
  "key e = ''Control'' \<or> key e = ''Alt'' \<Longrightarrow> now e - lastKeyTime s \<le> SCAN_TIMEOUT
     \<Longrightarrow> handleKeyDown s e = s"
  by (auto simp: handleKeyDown_def Let_def)

lemma control_alt_after_pause:
  "key e = ''Control'' \<or> key e = ''Alt'' \<Longrightarrow> now e - lastKeyTime s > SCAN_TIMEOUT
     \<Longrightarrow> handleKeyDown s e = s\<lparr>buffer := []\<rparr>"
  by (auto simp: handleKeyDown_def Let_def)

text \<open>
  Claim C7. A pure modifier key is to change the modifier state only and to leave
  buffer and timestamp alone. Shift does (\<open>shift_is_frame\<close>), and so do Control and
  Alt within the threshold; but the reset test excludes Shift only, so Control or Alt
  arriving after a pause empties the buffer: with \<open>RIMO12\<close> buffered and the last key at
  1000, Control at 1100 leaves an empty buffer.
\<close>

theorem control_key_clears_buffer:
  "handleKeyDown ((initialScanner True False)\<lparr>buffer := ''RIMO12'', lastKeyTime := 1000\<rparr>)
      \<lparr>key = ''Control'', ctrlKey = True, now = 1100\<rparr>
     = (initialScanner True False)\<lparr>buffer := [], lastKeyTime := 1000\<rparr>
   \<and> handleKeyDown ((initialScanner True False)\<lparr>buffer := ''RIMO12'', lastKeyTime := 1000\<rparr>)
      \<lparr>key = ''Alt'', ctrlKey = False, now = 1100\<rparr>
     = (initialScanner True False)\<lparr>buffer := [], lastKeyTime := 1000\<rparr>"
  by (simp add: handleKeyDown_def Let_def initialScanner_def SCAN_TIMEOUT_def)

subsection \<open>The cipher codec\<close>





text \<open>Every number below N to the power of the width has a group.\<close>

lemma encodeDigits_fits:
  assumes "a \<noteq> []"
  shows "p < length a ^ w \<Longrightarrow> \<exists>ds. encodeDigits a w p = Some ds"
proof (induction w arbitrary: p)
  case 0
  then show ?case by simp
next
  case (Suc w)
  then have "p div length a < length a ^ w"
    by (simp add: less_mult_imp_div_less mult.commute)
  from Suc.IH [OF this] show ?case using assms by auto
qed




text \<open>
  \<open>encode\<close> does produce a code for every valid pair of prices that has groups of the
  fixed width, when manufacturer and category are known.
\<close>

lemma encode_succeeds:
  assumes "alphabet cd \<noteq> []" "0 < wholesalePrice" "wholesalePrice < retailPrice"
    "nat retailPrice < length (alphabet cd) ^ width cd"
    "map_of (manufacturerCodes cd) manufacturerName = Some mc"
    "map_of (categoryCodes cd) categoryName = Some cc"
  shows "\<exists>pc. encode cd categoryName manufacturerName wholesalePrice retailPrice None note = Inr pc"
proof -
  have "nat wholesalePrice < length (alphabet cd) ^ width cd" using assms(2-4) by linarith
  from encodeDigits_fits [OF assms(1) this] encodeDigits_fits [OF assms(1) assms(4)]
  obtain gw gr where "encodeDigits (alphabet cd) (width cd) (nat wholesalePrice) = Some gw"
    "encodeDigits (alphabet cd) (width cd) (nat retailPrice) = Some gr" by blast
  then show ?thesis
    using assms by (simp add: encode_def encodeCipher_def Let_def)
qed


lemma exampleCodec_fields:
  "distinct (alphabet exampleCodec)" "alphabet exampleCodec \<noteq> []"
  "length (alphabet exampleCodec) = 32" "width exampleCodec = 4"
  "map_of (manufacturerCodes exampleCodec) ''Cartier'' = Some ''CA''"
  "map_of (categoryCodes exampleCodec) ''Rings'' = Some ''RG''"
  by (simp_all add: exampleCodec_def)

lemma encode_example_succeeds:
  assumes "0 < w" "w < r" "r < 1048576"
  shows "\<exists>pc. encode exampleCodec ''Rings'' ''Cartier'' w r None note = Inr pc"
proof -
  have "nat r < length (alphabet exampleCodec) ^ width exampleCodec"
    using assms by (simp add: exampleCodec_fields)
  then show ?thesis
    using assms by (intro encode_succeeds) (simp_all add: exampleCodec_fields)
qed


subsection \<open>Validation before encoding\<close>

lemma encode_rejects:
  assumes "r \<le> w \<or> w \<le> 0 \<or> r \<le> 0 \<or> (case buy of None \<Rightarrow> False | Some b \<Rightarrow> w \<le> b \<or> b \<le> 0)"
  shows "encode cd c m w r buy note = Inl InvalidInput"
  using assms by (auto simp: encode_def split: option.splits)

lemma handleSubmit_rejects:
  assumes "fd_buy_price f = Some b" "fd_wholesale_price f = Some w" "fd_retail_price f = Some r"
    "r \<le> w \<or> w \<le> b \<or> b \<le> 0 \<or> w \<le> 0 \<or> r \<le> 0"
  shows "\<exists>m. handleSubmit gen f = (Inl (Error m), [])"
  using assms by (cases "fd_stock_level f") (auto simp: handleSubmit_def)

lemma generateBarcode_rejects:
  assumes "fd_wholesale_price f = Some w" "fd_retail_price f = Some r"
    "fd_manufacturer f \<noteq> []" "fd_category f \<noteq> []" "w \<le> 0 \<or> r \<le> 0"
  shows "generateBarcode gen f st = (st\<lparr>pv_error := Some ''Invalid price values''\<rparr>, [])"
  using assms by (auto simp: generateBarcode_def Let_def)

lemma submitArgs_buy_price: "submitArgs (f\<lparr>fd_buy_price := b\<rparr>) w r = submitArgs f w r"
  by (simp add: submitArgs_def)

lemma generateBarcode_ignores_buy_price:
  "generateBarcode gen (f\<lparr>fd_buy_price := b\<rparr>) st = generateBarcode gen f st"
  by (simp add: generateBarcode_def submitArgs_buy_price Let_def split: option.splits)

text \<open>
  The preview leaves the comparison of retail and wholesale price to the generator; with
  the generator of the specification no code comes out of it either.
\<close>

lemma generateBarcode_no_code:
  assumes "fd_wholesale_price f = Some w" "fd_retail_price f = Some r"
    "r \<le> w \<or> w \<le> 0 \<or> r \<le> 0"
  shows "qrCode (fst (generateBarcode (specGenerator cd) f st)) = qrCode st
       \<and> generatedSKU (fst (generateBarcode (specGenerator cd) f st)) = generatedSKU st"
proof (cases "w \<le> 0 \<or> r \<le> 0")
  case True
  then show ?thesis
    using assms(1,2) by (simp add: generateBarcode_def Let_def)
next
  case False
  with assms(3) have "r \<le> w" by simp
  then have "encode cd (fd_category f) (fd_manufacturer f) w r None (fd_additional_info f) = Inl InvalidInput"
    by (intro encode_rejects) simp
  then show ?thesis
    using assms(1,2) by (simp add: generateBarcode_def Let_def specGenerator_def submitArgs_def)
qed

text \<open>
  Claim C2. Whenever the retail price is not above the wholesale price, or the wholesale
  price is not above the buy price, or a price is not positive, \<open>encode\<close> fails with
  \<open>InvalidInput\<close> and produces no ProductCode, with the buy price given and, for the
  conditions on wholesale and retail price, also without it. On the submit path
  \<open>handleSubmit\<close> fails before \<open>generateBarcodes\<close> is called, whatever that function
  is. On the preview path \<open>generateBarcode\<close> fails before calling it when the wholesale
  or the retail price is not positive, and shows no code when the retail price is not
  above the wholesale price.
\<close>

theorem invalid_prices_fail_before_encoding:
  assumes "retailPrice \<le> wholesalePrice \<or> wholesalePrice \<le> buyPrice \<or> buyPrice \<le> 0
             \<or> wholesalePrice \<le> 0 \<or> retailPrice \<le> 0"
  shows "encode cd categoryName manufacturerName wholesalePrice retailPrice (Some buyPrice) note
           = Inl InvalidInput
       \<and> (retailPrice \<le> wholesalePrice \<or> wholesalePrice \<le> 0 \<or> retailPrice \<le> 0 \<longrightarrow>
            encode cd categoryName manufacturerName wholesalePrice retailPrice None note
              = Inl InvalidInput)
       \<and> (fd_buy_price f = Some buyPrice \<and> fd_wholesale_price f = Some wholesalePrice
            \<and> fd_retail_price f = Some retailPrice \<longrightarrow>
            (\<exists>m. handleSubmit gen f = (Inl (Error m), [])))
       \<and> (fd_wholesale_price f = Some wholesalePrice \<and> fd_retail_price f = Some retailPrice
            \<and> fd_manufacturer f \<noteq> [] \<and> fd_category f \<noteq> []
            \<and> (wholesalePrice \<le> 0 \<or> retailPrice \<le> 0) \<longrightarrow>
            generateBarcode gen f st = (st\<lparr>pv_error := Some ''Invalid price values''\<rparr>, []))
       \<and> (fd_wholesale_price f = Some wholesalePrice \<and> fd_retail_price f = Some retailPrice
            \<and> (retailPrice \<le> wholesalePrice \<or> wholesalePrice \<le> 0 \<or> retailPrice \<le> 0) \<longrightarrow>
            qrCode (fst (generateBarcode (specGenerator cd) f st)) = qrCode st
            \<and> generatedSKU (fst (generateBarcode (specGenerator cd) f st)) = generatedSKU st)"
proof -
  have 1: "encode cd categoryName manufacturerName wholesalePrice retailPrice (Some buyPrice) note
           = Inl InvalidInput"
    using assms by (intro encode_rejects) auto
  have 2: "encode cd categoryName manufacturerName wholesalePrice retailPrice None note = Inl InvalidInput"
    if "retailPrice \<le> wholesalePrice \<or> wholesalePrice \<le> 0 \<or> retailPrice \<le> 0"
    using that by (intro encode_rejects) auto
  have 3: "\<exists>m. handleSubmit gen f = (Inl (Error m), [])"
    if "fd_buy_price f = Some buyPrice" "fd_wholesale_price f = Some wholesalePrice"
       "fd_retail_price f = Some retailPrice"
    using handleSubmit_rejects [OF that] assms by blast
  from 1 2 3 generateBarcode_rejects [of f wholesalePrice retailPrice gen st]
    generateBarcode_no_code [of f wholesalePrice retailPrice cd st]
  show ?thesis by blast
qed

theorem invalid_prices_fail_before_encoding_witness:
  "encode exampleCodec ''Rings'' ''Cartier'' 5000 8000 (Some 9000) [] = Inl InvalidInput
   \<and> handleSubmit exampleGenerator (exampleForm 9000 5000 8000)
     = (Inl (Error ''Wholesale price must be greater than buy price''), [])
   \<and> generateBarcode exampleGenerator (exampleForm 9000 0 8000) emptyPreview
     = (emptyPreview\<lparr>pv_error := Some ''Invalid price values''\<rparr>, [])
   \<and> generatedSKU (fst (generateBarcode exampleGenerator (exampleForm 1000 8000 5000) emptyPreview)) = []"
  using invalid_prices_fail_before_encoding
     [of 8000 5000 9000 exampleCodec "''Rings''" "''Cartier''" "[]"
         "exampleForm 9000 5000 8000" exampleGenerator emptyPreview]
    invalid_prices_fail_before_encoding
     [of 8000 0 9000 exampleCodec "''Rings''" "''Cartier''" "[]"
         "exampleForm 9000 0 8000" exampleGenerator emptyPreview]
    invalid_prices_fail_before_encoding
     [of 5000 8000 1000 exampleCodec "''Rings''" "''Cartier''" "[]"
         "exampleForm 1000 8000 5000" exampleGenerator emptyPreview]
  by (simp add: exampleForm_def handleSubmit_def missingFields_def trim_def isSpace_def
      exampleGenerator_def emptyPreview_def)


subsection \<open>The buy price and the generated codes\<close>

lemma handleSubmit_success:
  assumes "handleSubmit gen f = (Inr p, cs)"
  shows "\<exists>w r b. fd_wholesale_price f = Some w \<and> fd_retail_price f = Some r
           \<and> gen (submitArgs f w r) = Inr (Some b) \<and> cs = [submitArgs f w r]
           \<and> pd_sku p = bc_sku b \<and> pd_cipher p = bc_cipher b
           \<and> pd_qr_code p = bc_qrCode b \<and> pd_code128 p = bc_code128 b"
  using assms
  by (auto simp: handleSubmit_def Let_def split: option.splits sum.splits error.splits if_splits)

text \<open>
  Claim C3. Two submissions of forms that differ in the buy price only, both accepted,
  make the same single call of \<open>generateBarcodes\<close>, in which the buy-price argument is
  absent, and get the same \<open>sku\<close>, \<open>cipher\<close>, \<open>qr_code\<close> and \<open>code128\<close>; the preview
  does not depend on the buy price at all. (\<open>generateBarcodes\<close> is taken as a function
  of its arguments.)
\<close>

theorem buy_price_noninterference:
  assumes "handleSubmit gen f = (Inr p, cs)" "handleSubmit gen (f\<lparr>fd_buy_price := b'\<rparr>) = (Inr p', cs')"
  shows "pd_sku p' = pd_sku p \<and> pd_cipher p' = pd_cipher p
       \<and> pd_qr_code p' = pd_qr_code p \<and> pd_code128 p' = pd_code128 p
       \<and> cs' = cs \<and> list_all (\<lambda>a. g_buyPrice a = None) cs
       \<and> generateBarcode gen (f\<lparr>fd_buy_price := b'\<rparr>) st = generateBarcode gen f st"
proof -
  from handleSubmit_success [OF assms(1)] obtain w r b where
    1: "fd_wholesale_price f = Some w" "fd_retail_price f = Some r"
       "gen (submitArgs f w r) = Inr (Some b)" "cs = [submitArgs f w r]"
       "pd_sku p = bc_sku b" "pd_cipher p = bc_cipher b"
       "pd_qr_code p = bc_qrCode b" "pd_code128 p = bc_code128 b" by blast
  from handleSubmit_success [OF assms(2)] obtain w' r' c where
    2: "fd_wholesale_price f = Some w'" "fd_retail_price f = Some r'"
       "gen (submitArgs f w' r') = Inr (Some c)" "cs' = [submitArgs f w' r']"
       "pd_sku p' = bc_sku c" "pd_cipher p' = bc_cipher c"
       "pd_qr_code p' = bc_qrCode c" "pd_code128 p' = bc_code128 c"
    by (auto simp: submitArgs_buy_price)
  from 1 2 have "w' = w" "r' = r" by simp_all
  with 1 2 have "c = b" by simp
  with 1 2 \<open>w' = w\<close> \<open>r' = r\<close> show ?thesis
    by (simp add: generateBarcode_ignores_buy_price submitArgs_def)
qed

lemma encode_payloads:
  "encode cd c m w r b note = Inr pc \<Longrightarrow>
     sku pc \<noteq> [] \<and> qrPayload pc = sku pc \<and> code128Payload pc = sku pc"
  by (auto simp: encode_def Let_def split: if_splits option.splits)

theorem buy_price_noninterference_witness:
  "map_sum id (\<lambda>p. (pd_sku p, pd_cipher p, pd_qr_code p, pd_code128 p))
      (fst (handleSubmit exampleGenerator (exampleForm 4000 5000 8000)))
   = map_sum id (\<lambda>p. (pd_sku p, pd_cipher p, pd_qr_code p, pd_code128 p))
      (fst (handleSubmit exampleGenerator (exampleForm 100 5000 8000)))
   \<and> pd_buy_price (projr (fst (handleSubmit exampleGenerator (exampleForm 4000 5000 8000)))) = 4000
   \<and> pd_buy_price (projr (fst (handleSubmit exampleGenerator (exampleForm 100 5000 8000)))) = 100"
proof -
  obtain pc where pc: "encode exampleCodec ''Rings'' ''Cartier'' 5000 8000 None [] = Inr pc"
    using encode_example_succeeds [of 5000 8000 "[]"] by auto
  show ?thesis
    using buy_price_noninterference [of exampleGenerator "exampleForm 100 5000 8000" _ _ "Some 4000" _ _ emptyPreview]
      encode_payloads [OF pc]
    by (simp add: exampleForm_def handleSubmit_def missingFields_def trim_def isSpace_def Let_def
        exampleGenerator_def specGenerator_def submitArgs_def pc)
qed

subsection \<open>Scanning in bulk mode\<close>

text \<open>
  A scan of the recognised token dispatches it once: on the ledger, the eleven keys do
  what one call of \<open>processSku\<close> does.
\<close>

lemma scan_dispatches_token:
  assumes "scanning s" "map key es = map (\<lambda>c. [c]) SKU_PATTERN" "gaps_ok es"
  shows "bulkItems (runKeys s es) = bulkItems (processSku SKU_PATTERN s)"
  by (simp add: typing_token [OF assms])


end
